theory Spec2Isabelle
  imports Main "HOL-Library.Word" "HOL-Library.Char_ord" "HOL-Library.List_Lexorder"
begin

section \<open>Domain names and the radix key (zone.go)\<close>

text \<open>
  Go strings are byte sequences; they are modelled as \<open>string\<close> (a list of \<open>char\<close>, one
  \<open>char\<close> per byte). With \<open>Char_ord\<close> and \<open>List_Lexorder\<close> the order \<open><\<close> on \<open>string\<close> is
  the lexicographic order on bytes, which is the order Go's \<open><\<close> on strings and a radix
  tree over byte strings use.
\<close>

subsection \<open>Collaborators of zone.go that are not part of the file\<close>

text \<open>
  \<open>strings.ToLower\<close> of the Go standard library. On a string of ASCII bytes (all below
  \<open>0x80\<close>) it maps the bytes \<open>A\<close> .. \<open>Z\<close> to \<open>a\<close> .. \<open>z\<close> and keeps every other byte. On any
  other string it decodes the bytes as UTF-8 and maps every code point with the Unicode
  case tables, which can change and even add bytes. The tables are not part of the
  repository: that mapping is the parameter \<open>ul\<close>, and every function that lowers a name
  takes it. Nothing is assumed about \<open>ul\<close>.
\<close>

definition toLowerByte :: "char \<Rightarrow> char" where
  "toLowerByte c =
     (if CHR ''A'' \<le> c \<and> c \<le> CHR ''Z'' then char_of (of_char c + (32 :: nat)) else c)"

definition isASCII :: "string \<Rightarrow> bool" where
  "isASCII s = list_all (\<lambda>c. c < CHR 0x80) s"

definition ToLower :: "(string \<Rightarrow> string) \<Rightarrow> string \<Rightarrow> string" where
  "ToLower ul s = (if isASCII s then map toLowerByte s else ul s)"

text \<open>
  Modelled from the spec: \<open>IsFqdn\<close> and \<open>Fqdn\<close> live in the repository outside zone.go.
  The spec says of \<open>Fqdn\<close> that it "ensures trailing root dot".
\<close>

definition IsFqdn :: "string \<Rightarrow> bool" where
  "IsFqdn s = (s \<noteq> [] \<and> last s = CHR ''.'')"

definition Fqdn :: "string \<Rightarrow> string" where
  "Fqdn s = (if IsFqdn s then s else s @ ''.'')"

text \<open>
  Modelled from the spec: \<open>SplitLabels\<close> lives in the repository outside zone.go. The spec
  says that it splits a name into labels with "label boundaries at unescaped \<open>.\<close> per
  domain-name syntax", and that the root has no labels. A backslash (byte \<open>0x5C\<close>) escapes
  the byte after it; both stay in the label. The name is made fully qualified first, and
  only a label closed by an unescaped dot is returned.
\<close>

fun splitFrom :: "string \<Rightarrow> string \<Rightarrow> string list" where
  "splitFrom cur [] = []"
| "splitFrom cur [c] = (if c = CHR ''.'' then [cur] else [])"
| "splitFrom cur (c # d # ds) =
     (if c = CHR 0x5C then splitFrom (cur @ [c, d]) ds
      else if c = CHR ''.'' then cur # splitFrom [] (d # ds)
      else splitFrom (cur @ [c]) (d # ds))"

definition SplitLabels :: "string \<Rightarrow> string list" where
  "SplitLabels s = (if s = ''.'' then [] else splitFrom [] (Fqdn s))"

text \<open>
  Modelled from the spec: \<open>IsSubDomain\<close> lives in the repository outside zone.go. The spec
  says that it holds when the child "is equal to or a subdomain of" the parent: the labels
  of the parent are the last labels of the child, compared without case.
\<close>

definition IsSubDomain :: "(string \<Rightarrow> string) \<Rightarrow> string \<Rightarrow> string \<Rightarrow> bool" where
  "IsSubDomain ul parent child =
     (let p = map (ToLower ul) (SplitLabels parent);
          c = map (ToLower ul) (SplitLabels child)
      in length p \<le> length c \<and> drop (length c - length p) c = p)"

subsection \<open>toRadixName\<close>

text \<open>
  \<^verbatim>\<open>
  func toRadixName(d string) string {
      if d == "." { return "." }
      s := ""
      for _, l := range SplitLabels(d) { s = strings.ToLower(l) + "." + s }
      return "." + s
  }
  \<close>
  The loop is a left fold over the labels that puts each lowered label in front of the
  string built so far. \<open>ul\<close> is the Unicode mapping that \<open>strings.ToLower\<close> uses on a label
  with a byte outside ASCII.
\<close>

fun radixLoop :: "(string \<Rightarrow> string) \<Rightarrow> string list \<Rightarrow> string \<Rightarrow> string" where
  "radixLoop ul [] s = s"
| "radixLoop ul (l # ls) s = radixLoop ul ls (ToLower ul l @ ''.'' @ s)"

definition toRadixName :: "(string \<Rightarrow> string) \<Rightarrow> string \<Rightarrow> string" where
  "toRadixName ul d = (if d = ''.'' then ''.'' else ''.'' @ radixLoop ul (SplitLabels d) [])"

text \<open>
  The canonical ordering of DNSSEC, in the words of the spec: "comparison of reversed label
  sequences, lowercased". A name is its list of labels, most significant (rightmost) label
  first; labels are compared as lowercased byte strings and a name sorts before every name
  it is a proper ancestor of.
\<close>

definition canonicalLabels :: "(string \<Rightarrow> string) \<Rightarrow> string \<Rightarrow> string list" where
  "canonicalLabels ul d = rev (map (ToLower ul) (SplitLabels d))"

definition canonicalLess :: "(string \<Rightarrow> string) \<Rightarrow> string \<Rightarrow> string \<Rightarrow> bool" where
  "canonicalLess ul a b = (canonicalLabels ul a < canonicalLabels ul b)"

section \<open>Resource records\<close>

text \<open>
  Modelled from the spec: the types \<open>RR\<close>, \<open>RR_Header\<close>, \<open>RR_RRSIG\<close> and \<open>Error\<close> and the
  type codes are declared in the repository outside zone.go. The spec's glossary gives an
  RR as "name, type, class, TTL, type-specific data" and an RRSIG as the record that
  carries a covered type.

  An \<open>RR\<close> of the source is an interface value that holds a pointer to a record struct,
  and \<open>r == zr\<close> compares the pointers. The model keeps the pointer as the field \<open>ref\<close>,
  so HOL's equality of two \<open>RR\<close> values agrees with \<open>==\<close> whenever equal references carry
  equal contents. The constructor is the dynamic type: \<open>RR_RRSIG\<close> for \<open>*RR_RRSIG\<close>,
  \<open>RR_Other\<close> for every other record type.
\<close>

type_synonym uint16 = "16 word"

record RR_Header =
  Name :: string
  Rrtype :: uint16
  Class :: uint16
  Ttl :: "32 word"

datatype RR =
    RR_RRSIG (ref: nat) (Hdr: RR_Header) (TypeCovered: uint16)
  | RR_Other (ref: nat) (Hdr: RR_Header)

definition Header :: "RR \<Rightarrow> RR_Header" where
  "Header r = Hdr r"

definition TypeA :: uint16 where "TypeA = 1"
definition TypeNS :: uint16 where "TypeNS = 2"
definition TypeRRSIG :: uint16 where "TypeRRSIG = 46"

text \<open>
  A call that does not return: the type assertion \<open>r.(*RR_RRSIG)\<close> on a record of another
  dynamic type, or a slice expression out of range. The model does not describe the zone
  after a panic.
\<close>

datatype panic = TypeAssertion | SliceBounds

text \<open>The type assertion \<open>r.(*RR_RRSIG).TypeCovered\<close>.\<close>

fun assertRRSIG :: "RR \<Rightarrow> panic + uint16" where
  "assertRRSIG (RR_RRSIG p h c) = Inr c"
| "assertRRSIG (RR_Other p h) = Inl TypeAssertion"

record Error =
  Err :: string
  Name_err :: string

section \<open>Zone data\<close>

text \<open>
  A Go map from type code to slice is a partial map; reading a missing key gives the nil
  slice, which \<open>slice\<close> writes out. Both mutexes are left out: the model is sequential.
  The \<open>Signatures\<close> lists hold \<open>*RR_RRSIG\<close> values, kept as \<open>RR\<close> values built with
  \<open>RR_RRSIG\<close>.
\<close>

record ZoneData =
  Name_zd :: string
  RR :: "uint16 \<rightharpoonup> RR list"
  Signatures :: "uint16 \<rightharpoonup> RR list"
  NonAuth :: bool

definition slice :: "(uint16 \<rightharpoonup> RR list) \<Rightarrow> uint16 \<Rightarrow> RR list" where
  "slice m t = (case m t of None \<Rightarrow> [] | Some xs \<Rightarrow> xs)"

definition newZoneData :: "string \<Rightarrow> ZoneData" where
  "newZoneData s = \<lparr>Name_zd = s, RR = Map.empty, Signatures = Map.empty, NonAuth = False\<rparr>"

text \<open>
  The radix tree of \<open>github.com/miekg/radix\<close> is used through \<open>Insert\<close> and \<open>Find\<close> only;
  the model keeps it as the partial map from keys to values that these two give. Every
  key has a \<open>ZoneData\<close> of its own, so updating the value of one key in place is a map
  update. \<open>Wildcard\<close> is a Go \<open>int\<close> of 64 bits; it is an unbounded \<open>int\<close> here, since it
  grows by one for each new key of the tree only and would need \<open>2 ^ 63\<close> stored names to
  wrap around.
\<close>

record Zone =
  Origin :: string
  Wildcard :: int
  Radix :: "string \<rightharpoonup> ZoneData"

text \<open>
  \<open>NewZone\<close>; the validity check \<open>IsDomainName\<close> is declared outside zone.go and is a
  parameter.
\<close>

definition NewZone :: "(string \<Rightarrow> bool) \<Rightarrow> string \<Rightarrow> Zone option" where
  "NewZone IsDomainName origin =
     (let origin = (if origin = [] then ''.'' else origin)
      in if \<not> IsDomainName origin then None
         else Some \<lparr>Origin = Fqdn origin, Wildcard = 0, Radix = Map.empty\<rparr>)"

text \<open>
  The test \<open>len(name) > 1 && name[0] == '*' && name[1] == '.'\<close> of \<open>Insert\<close> and \<open>Remove\<close>.
\<close>

fun isWildcardName :: "string \<Rightarrow> bool" where
  "isWildcardName (c0 # c1 # cs) = (c0 = CHR ''*'' \<and> c1 = CHR ''.'')"
| "isWildcardName cs = False"

section \<open>Insert\<close>

text \<open>
  The \<open>switch\<close> on the record type that files \<open>r\<close> into a \<open>ZoneData\<close>. The source has it
  twice with the same cases, once for the new \<open>ZoneData\<close> and once for the one found:
  \<^verbatim>\<open>
  switch t := r.Header().Rrtype; t {
  case TypeRRSIG:
      sigtype := r.(*RR_RRSIG).TypeCovered
      zd.Signatures[sigtype] = append(zd.Signatures[sigtype], r.(*RR_RRSIG))
  case TypeNS:
      if r.Header().Name != z.Origin { zd.NonAuth = true }
      fallthrough
  default:
      zd.RR[t] = append(zd.RR[t], r)
  }
  \<close>
\<close>

definition fileRR :: "string \<Rightarrow> RR \<Rightarrow> ZoneData \<Rightarrow> panic + ZoneData" where
  "fileRR origin r zd =
     (let t = Rrtype (Header r) in
      if t = TypeRRSIG then
        (case assertRRSIG r of
           Inl p \<Rightarrow> Inl p
         | Inr sigtype \<Rightarrow>
             Inr (zd\<lparr>Signatures := (Signatures zd)(sigtype \<mapsto> slice (Signatures zd) sigtype @ [r])\<rparr>))
      else
        (let zd1 = (if t = TypeNS \<and> Name (Header r) \<noteq> origin then zd\<lparr>NonAuth := True\<rparr> else zd)
         in Inr (zd1\<lparr>RR := (RR zd1)(t \<mapsto> slice (RR zd1) t @ [r])\<rparr>)))"

text \<open>
  \<open>Insert\<close> returns the zone and the error (\<open>None\<close> for \<open>nil\<close>), or does not return.
\<close>

definition Insert :: "(string \<Rightarrow> string) \<Rightarrow> Zone \<Rightarrow> RR \<Rightarrow> panic + (Zone \<times> Error option)" where
  "Insert ul z r =
     (if \<not> IsSubDomain ul (Origin z) (Name (Header r)) then
        Inr (z, Some \<lparr>Err = ''out of zone data'', Name_err = Name (Header r)\<rparr>)
      else
        (let key = toRadixName ul (Name (Header r)) in
         case Radix z key of
           None \<Rightarrow>
             (let z1 = (if isWildcardName (Name (Header r))
                        then z\<lparr>Wildcard := Wildcard z + 1\<rparr> else z)
              in case fileRR (Origin z) r (newZoneData (Name (Header r))) of
                   Inl p \<Rightarrow> Inl p
                 | Inr zd \<Rightarrow> Inr (z1\<lparr>Radix := (Radix z1)(key \<mapsto> zd)\<rparr>, None))
         | Some zd0 \<Rightarrow>
             (case fileRR (Origin z) r zd0 of
                Inl p \<Rightarrow> Inl p
              | Inr zd \<Rightarrow> Inr (z\<lparr>Radix := (Radix z)(key \<mapsto> zd)\<rparr>, None))))"

section \<open>Remove\<close>

text \<open>
  The loop of \<open>Remove\<close> over the list \<open>zd.RR[t]\<close>:
  \<^verbatim>\<open>
  for i, zr := range zd.RR[t] {
      if r == zr {
          zd.RR[t] = append(zd.RR[t][:i], zd.RR[t][i+1:]...)
          remove = true
      }
  }
  \<close>
  \<open>range\<close> evaluates the slice once: the loop runs over the indices below the first
  length \<open>n\<close> and reads \<open>zr\<close> from the backing array at each step. The \<open>append\<close> fits in
  the capacity, so it moves the elements after index \<open>i\<close> one place down inside the same
  backing array and shortens the slice stored in the map by one; the cell that held the
  last element keeps its value. The state of the loop is the first \<open>n\<close> cells of the
  backing array (\<open>arr\<close>), the length of the slice in the map (\<open>len\<close>) and the flag.
  \<open>zd.RR[t][:i]\<close> is within the capacity; \<open>zd.RR[t][i+1:]\<close> panics when \<open>i + 1\<close> is
  above the current length. \<open>arr\<close> keeps its \<open>n\<close> cells at every step, so \<open>arr ! i\<close> with
  \<open>i < n\<close> is one of them.
\<close>

function removeLoop :: "RR \<Rightarrow> nat \<Rightarrow> nat \<Rightarrow> RR list \<Rightarrow> nat \<Rightarrow> bool \<Rightarrow> panic + (RR list \<times> bool)" where
  "removeLoop r i n arr len remove =
     (if i < n then
        (if r = arr ! i then
           (if len < i + 1 then Inl SliceBounds
            else removeLoop r (i + 1) n
                   (take i arr @ drop (i + 1) (take len arr) @ drop (len - 1) arr)
                   (len - 1) True)
         else removeLoop r (i + 1) n arr len remove)
      else Inr (take len arr, remove))"
  by pat_completeness auto
termination
  by (relation "measure (\<lambda>(r, i, n, arr, len, remove). n - i)") auto

declare removeLoop.simps [simp del]

definition removeFrom :: "RR \<Rightarrow> RR list \<Rightarrow> panic + (RR list \<times> bool)" where
  "removeFrom r xs = removeLoop r 0 (length xs) xs (length xs) False"

text \<open>
  \<open>Remove\<close>. Both cases of its \<open>switch\<close> run the loop over the plain list \<open>zd.RR\<close>: the case
  for \<open>TypeRRSIG\<close> under the covered type, the default case under the type of \<open>r\<close>. The map
  is assigned only when an element matched.
\<close>

definition Remove :: "(string \<Rightarrow> string) \<Rightarrow> Zone \<Rightarrow> RR \<Rightarrow> panic + (Zone \<times> Error option)" where
  "Remove ul z r =
     (let key = toRadixName ul (Name (Header r)) in
      case Radix z key of
        None \<Rightarrow> Inr (z, None)
      | Some zd \<Rightarrow>
          (case (if Rrtype (Header r) = TypeRRSIG then assertRRSIG r
                 else Inr (Rrtype (Header r))) of
             Inl p \<Rightarrow> Inl p
           | Inr t \<Rightarrow>
               (case removeFrom r (slice (RR zd) t) of
                  Inl p \<Rightarrow> Inl p
                | Inr (xs, remove) \<Rightarrow>
                    (let z1 = (if remove
                               then z\<lparr>Radix := (Radix z)(key \<mapsto> zd\<lparr>RR := (RR zd)(t \<mapsto> xs)\<rparr>)\<rparr>
                               else z)
                     in if remove \<and> isWildcardName (Name (Header r))
                        then Inr (z1\<lparr>Wildcard :=
                                   (if Wildcard z - 1 < 0 then 0 else Wildcard z - 1)\<rparr>, None)
                        else Inr (z1, None)))))"

section \<open>Find\<close>

definition Find :: "(string \<Rightarrow> string) \<Rightarrow> Zone \<Rightarrow> string \<Rightarrow> ZoneData option" where
  "Find ul z s = Radix z (toRadixName ul s)"

section \<open>Sequences of calls\<close>

text \<open>
  A caller's sequence of \<open>Insert\<close> and \<open>Remove\<close> calls on one zone. An error returned by
  \<open>Insert\<close> does not stop the caller; a panic ends the run.
\<close>

datatype call = CallInsert RR | CallRemove RR

fun run :: "(string \<Rightarrow> string) \<Rightarrow> Zone \<Rightarrow> call list \<Rightarrow> panic + Zone" where
  "run ul z [] = Inr z"
| "run ul z (CallInsert r # cs) =
     (case Insert ul z r of Inl p \<Rightarrow> Inl p | Inr (z1, e) \<Rightarrow> run ul z1 cs)"
| "run ul z (CallRemove r # cs) =
     (case Remove ul z r of Inl p \<Rightarrow> Inl p | Inr (z1, e) \<Rightarrow> run ul z1 cs)"

section \<open>Signing\<close>

text \<open>
  \<open>time.Duration\<close> is a signed 64-bit count of nanoseconds; \<open>time.Second\<close> and \<open>time.Hour\<close>
  are the constants of the Go standard library.
\<close>

type_synonym Duration = "64 word"

definition Second :: Duration where "Second = 1000000000"
definition Hour :: Duration where "Hour = 3600 * Second"

record SignatureConfig =
  Validity :: Duration
  Refresh :: Duration
  Jitter :: Duration
  InceptionOffset :: Duration

definition newSignatureConfig :: SignatureConfig where
  "newSignatureConfig =
     \<lparr>Validity = (4 * 7 * 24) * Hour, Refresh = (3 * 24) * Hour,
      Jitter = 12 * Hour, InceptionOffset = 300 * Second\<rparr>"

definition DefaultSignatureConfig :: SignatureConfig where
  "DefaultSignatureConfig = newSignatureConfig"

text \<open>
  \<^verbatim>\<open>
  func (z *Zone) Sign(keys []*RR_DNSKEY, config *SignatureConfig) error {
      if config == nil {
          config = DefaultSignatureConfig
      }
      // concurrently walk the zone and sign the rrsets
      return nil
  }
  \<close>
  The pointer \<open>config\<close> is an option, \<open>None\<close> for \<open>nil\<close>; the keys are a list of records. The
  body assigns the local \<open>config\<close> and returns; the walk that is to sign with \<open>config\<close> is a
  comment. The state that the body passes along is the zone and the local \<open>config\<close>. The
  model returns that state as it is at the \<open>return\<close>, with the error.
\<close>

record SignResult =
  sign_zone :: Zone
  sign_config :: "SignatureConfig option"
  sign_err :: "Error option"

definition Sign :: "Zone \<Rightarrow> RR list \<Rightarrow> SignatureConfig option \<Rightarrow> SignResult" where
  "Sign z keys config =
     (let config = (if config = None then Some DefaultSignatureConfig else config)
      in \<lparr>sign_zone = z, sign_config = config, sign_err = None\<rparr>)"

section \<open>Notions used to state the properties\<close>

text \<open>
  The owner names present in the zone whose name begins with \<open>*.\<close>: the names of the
  \<open>ZoneData\<close> values held by the tree that pass the wildcard test.
\<close>

definition wildcardNames :: "Zone \<Rightarrow> string set" where
  "wildcardNames z = {n. isWildcardName n \<and> (\<exists>zd \<in> ran (Radix z). Name_zd zd = n)}"

text \<open>
  Two spellings are the same domain name when they have the same labels up to letter
  case: the spec calls a domain name "a sequence of labels, case-insensitive".
\<close>

definition sameName :: "(string \<Rightarrow> string) \<Rightarrow> string \<Rightarrow> string \<Rightarrow> bool" where
  "sameName ul a b = (canonicalLabels ul a = canonicalLabels ul b)"

text \<open>
  What every zone built by \<open>NewZone\<close>, \<open>Insert\<close> and \<open>Remove\<close> satisfies: the tree has
  finitely many keys and every \<open>ZoneData\<close> sits under the key of its name.
\<close>

definition zoneInv :: "(string \<Rightarrow> string) \<Rightarrow> Zone \<Rightarrow> bool" where
  "zoneInv ul z = (finite (dom (Radix z)) \<and>
     (\<forall>k zd. Radix z k = Some zd \<longrightarrow> toRadixName ul (Name_zd zd) = k))"

text \<open>The \<open>ZoneData\<close> that \<open>Insert\<close> files \<open>r\<close> into: the one found under the key, or a new one.\<close>

definition target :: "(string \<Rightarrow> string) \<Rightarrow> Zone \<Rightarrow> RR \<Rightarrow> ZoneData" where
  "target ul z r = (case Radix z (toRadixName ul (Name (Header r))) of
       None \<Rightarrow> newZoneData (Name (Header r)) | Some zd \<Rightarrow> zd)"

section \<open>Example zones and records\<close>

text \<open>
  The names of the examples are ASCII, so \<open>ToLower\<close> does not call the Unicode mapping on
  them. Where a statement has to be closed, \<open>keepBytes\<close> stands for the mapping.
\<close>

definition keepBytes :: "string \<Rightarrow> string" where
  "keepBytes s = s"

text \<open>The zones that \<open>NewZone\<close> gives for the origins \<open>example.\<close> and \<open>example.com.\<close>.\<close>

definition exampleZone :: Zone where
  "exampleZone = \<lparr>Origin = ''example.'', Wildcard = 0, Radix = Map.empty\<rparr>"

definition comZone :: Zone where
  "comZone = \<lparr>Origin = ''example.com.'', Wildcard = 0, Radix = Map.empty\<rparr>"

definition rA :: RR where
  "rA = RR_Other 1 \<lparr>Name = ''a.example.'', Rrtype = TypeA, Class = 1, Ttl = 3600\<rparr>"

definition rB :: RR where
  "rB = RR_Other 2 \<lparr>Name = ''a.example.'', Rrtype = TypeA, Class = 1, Ttl = 3600\<rparr>"

definition rSig :: RR where
  "rSig = RR_RRSIG 3 \<lparr>Name = ''a.example.'', Rrtype = TypeRRSIG, Class = 1, Ttl = 3600\<rparr> TypeA"

definition rOut :: RR where
  "rOut = RR_Other 4 \<lparr>Name = ''foo.other.com.'', Rrtype = TypeA, Class = 1, Ttl = 3600\<rparr>"

definition rNSapex :: RR where
  "rNSapex = RR_Other 5 \<lparr>Name = ''example.'', Rrtype = TypeNS, Class = 1, Ttl = 3600\<rparr>"

definition rNSupper :: RR where
  "rNSupper = RR_Other 6 \<lparr>Name = ''EXAMPLE.'', Rrtype = TypeNS, Class = 1, Ttl = 3600\<rparr>"

definition rW1 :: RR where
  "rW1 = RR_Other 7 \<lparr>Name = ''*.example.'', Rrtype = TypeA, Class = 1, Ttl = 3600\<rparr>"

definition rW2 :: RR where
  "rW2 = RR_Other 8 \<lparr>Name = ''*.example.'', Rrtype = TypeA, Class = 1, Ttl = 3600\<rparr>"

definition rW3 :: RR where
  "rW3 = RR_Other 9 \<lparr>Name = ''*.b.example.'', Rrtype = TypeA, Class = 1, Ttl = 3600\<rparr>"

text \<open>The zone \<open>example.\<close> after one insertion of \<open>rA\<close> or of \<open>rSig\<close>.\<close>

definition zoneA :: Zone where
  "zoneA = \<lparr>Origin = ''example.'', Wildcard = 0,
     Radix = [''.example.a.'' \<mapsto>
       \<lparr>Name_zd = ''a.example.'', RR = [TypeA \<mapsto> [rA]], Signatures = Map.empty,
        NonAuth = False\<rparr>]\<rparr>"

definition zoneSig :: Zone where
  "zoneSig = \<lparr>Origin = ''example.'', Wildcard = 0,
     Radix = [''.example.a.'' \<mapsto>
       \<lparr>Name_zd = ''a.example.'', RR = Map.empty, Signatures = [TypeA \<mapsto> [rSig]],
        NonAuth = False\<rparr>]\<rparr>"

text \<open>The name \<open>W\.w.Ex.ORG.\<close>, whose first label \<open>W\.w\<close> holds an escaped dot.\<close>

definition escapedLabel :: string where
  "escapedLabel = [CHR ''W'', CHR 0x5C, CHR ''.'', CHR ''w'']"

definition escapedName :: string where
  "escapedName =
     [CHR ''W'', CHR 0x5C, CHR ''.'', CHR ''w'', CHR ''.'', CHR ''E'', CHR ''x'', CHR ''.'',
      CHR ''O'', CHR ''R'', CHR ''G'', CHR ''.'']"

section \<open>Properties of the radix key\<close>

lemma radixLoop_append:
  "radixLoop ul ls s = concat (map (\<lambda>l. ToLower ul l @ ''.'') (rev ls)) @ s"
  by (induction ls arbitrary: s) simp_all

lemma SplitLabels_escapedName:
  "SplitLabels escapedName = escapedLabel # ''Ex'' # ''ORG'' # []"
  by code_simp

lemma ToLower_escapedName:
  "ToLower ul escapedLabel = [CHR ''w'', CHR 0x5C, CHR ''.'', CHR ''w'']"
  "ToLower ul ''Ex'' = ''ex''"
  "ToLower ul ''ORG'' = ''org''"
  by code_simp+

lemma in_zone_examples:
  "IsSubDomain ul ''example.'' ''a.example.''"
  "IsSubDomain ul ''example.'' ''example.''"
  "IsSubDomain ul ''example.'' ''sub.example.''"
  by code_simp+

lemma key_examples:
  "toRadixName ul ''a.example.'' = ''.example.a.''"
  "toRadixName ul ''example.'' = ''.example.''"
  "toRadixName ul ''sub.example.'' = ''.example.sub.''"
  by code_simp+

text \<open>
  Claim C1. The key order is meant to be the canonical order of the names. With \<open>.\<close>
  (byte \<open>0x2E\<close>) closing every label, a label that continues with a smaller byte, such as
  \<open>-\<close> (\<open>0x2D\<close>), sorts first as a key and last as a name: the key of \<open>a-b.example.\<close> is
  below the key of \<open>a.example.\<close>, while \<open>a.example.\<close> canonically precedes
  \<open>a-b.example.\<close>.
\<close>

theorem toRadixName_order_differs:
  "toRadixName ul ''a-b.example.'' < toRadixName ul ''a.example.'' \<and>
   \<not> canonicalLess ul ''a-b.example.'' ''a.example.'' \<and>
   canonicalLess ul ''a.example.'' ''a-b.example.''"
  by code_simp

text \<open>
  Claim C2. \<open>toRadixName\<close> maps \<open>.\<close> to \<open>.\<close>; for every other name the key is a dot followed
  by the lowercased labels of the name in reverse order, each label followed by a dot.
  The lowering is \<open>strings.ToLower\<close>, whatever its Unicode mapping \<open>ul\<close> is.
\<close>

theorem toRadixName_reversed_labels:
  "toRadixName ul ''.'' = ''.'' \<and>
   (d \<noteq> ''.'' \<longrightarrow>
      toRadixName ul d = ''.'' @ concat (map (\<lambda>l. ToLower ul l @ ''.'') (rev (SplitLabels d))))"
  by (simp add: toRadixName_def radixLoop_append)

text \<open>
  A label with bytes outside ASCII, here the two bytes \<open>0xC3 0x89\<close>, goes through the
  Unicode mapping as a whole; the ASCII labels beside it are lowered byte by byte.
\<close>

lemma toRadixName_non_ascii:
  "toRadixName ul [CHR 0xC3, CHR 0x89, CHR ''.'', CHR ''E'', CHR ''x'', CHR ''.''] =
     ''.ex.'' @ ul [CHR 0xC3, CHR 0x89] @ ''.''"
  by code_simp

text \<open>At \<open>W\.w.Ex.ORG.\<close> the key is \<open>.org.ex.w\.w.\<close>: the escaped dot stays inside its label.\<close>

theorem toRadixName_reversed_labels_witness:
  "escapedName \<noteq> ''.'' \<and>
   toRadixName keepBytes escapedName =
     [CHR ''.'', CHR ''o'', CHR ''r'', CHR ''g'', CHR ''.'', CHR ''e'', CHR ''x'', CHR ''.'',
      CHR ''w'', CHR 0x5C, CHR ''.'', CHR ''w'', CHR ''.'']"
proof -
  have ne: "escapedName \<noteq> ''.''"
    by (simp add: escapedName_def)
  from toRadixName_reversed_labels [of keepBytes escapedName] ne
  have "toRadixName keepBytes escapedName =
      ''.'' @ concat (map (\<lambda>l. ToLower keepBytes l @ ''.'') (rev (SplitLabels escapedName)))"
    by blast
  then show ?thesis
    using ne by (simp add: SplitLabels_escapedName ToLower_escapedName)
qed

section \<open>Properties of Insert and Find\<close>

lemma other_com_out_of_zone: "\<not> IsSubDomain ul ''example.com.'' ''foo.other.com.''"
  by code_simp

text \<open>
  Claim C6. When the owner name of \<open>r\<close> is neither the origin nor below it, \<open>Insert\<close>
  returns the error \<open>out of zone data\<close> with that owner name, and the zone it returns is
  the zone it was given: the tree, every \<open>ZoneData\<close> and the counter are the same.
\<close>

theorem Insert_out_of_zone:
  "\<not> IsSubDomain ul (Origin z) (Name (Header r)) \<Longrightarrow>
   Insert ul z r = Inr (z, Some \<lparr>Err = ''out of zone data'', Name_err = Name (Header r)\<rparr>)"
  by (simp add: Insert_def)

theorem Insert_out_of_zone_witness:
  "\<not> IsSubDomain keepBytes (Origin comZone) (Name (Header rOut)) \<and>
   Insert keepBytes comZone rOut =
     Inr (comZone, Some \<lparr>Err = ''out of zone data'', Name_err = ''foo.other.com.''\<rparr>)"
  using Insert_out_of_zone [of keepBytes comZone rOut] other_com_out_of_zone
  by (simp add: rOut_def comZone_def Header_def)

text \<open>An insertion that returns \<open>nil\<close> has filed the record, and the name is found.\<close>

lemma Insert_nil_Find:
  assumes "Insert ul z r = Inr (z', None)"
  shows "\<exists>zd. fileRR (Origin z) r (target ul z r) = Inr zd \<and> Find ul z' (Name (Header r)) = Some zd"
  using assms
  by (auto simp: Insert_def Find_def target_def Let_def
      split: if_splits option.splits sum.splits)

lemma Insert_in_zone:
  assumes "IsSubDomain ul (Origin z) (Name (Header r))"
    and "fileRR (Origin z) r (target ul z r) = Inr zd"
  shows "\<exists>z'. Insert ul z r = Inr (z', None) \<and> Find ul z' (Name (Header r)) = Some zd"
  using assms
  by (auto simp: Insert_def Find_def target_def Let_def
      split: if_splits option.splits sum.splits)

lemma slice_upd: "slice (m(t \<mapsto> xs)) t = xs"
  by (simp add: slice_def)

lemma Insert_rA: "Insert ul exampleZone rA = Inr (zoneA, None)"
  by (simp add: Insert_def exampleZone_def rA_def Header_def in_zone_examples key_examples
      fileRR_def newZoneData_def slice_def zoneA_def TypeA_def TypeRRSIG_def TypeNS_def)

lemma Insert_rSig: "Insert ul exampleZone rSig = Inr (zoneSig, None)"
  by (simp add: Insert_def exampleZone_def rSig_def Header_def in_zone_examples key_examples
      fileRR_def newZoneData_def slice_def zoneSig_def TypeA_def TypeRRSIG_def TypeNS_def)

text \<open>
  Claim C5, as the claim states it, fails for a signature record: after \<open>Insert\<close> of the
  RRSIG \<open>rSig\<close> at the in-zone name \<open>a.example.\<close> returns \<open>nil\<close>, \<open>Find\<close> returns a
  \<open>ZoneData\<close> whose list under the type of \<open>rSig\<close> (RRSIG) does not hold \<open>rSig\<close>.
\<close>

theorem Insert_RRSIG_not_under_its_type:
  "IsSubDomain keepBytes (Origin exampleZone) (Name (Header rSig)) \<and>
   (case Insert keepBytes exampleZone rSig of
      Inl p \<Rightarrow> False
    | Inr (z', e) \<Rightarrow> e = None \<and>
        (case Find keepBytes z' (Name (Header rSig)) of
           None \<Rightarrow> False
         | Some zd \<Rightarrow> rSig \<notin> set (slice (RR zd) (Rrtype (Header rSig)))))"
  by code_simp

text \<open>
  Claim C5, amended. After \<open>Insert\<close> of \<open>r\<close> returns \<open>nil\<close>, \<open>Find\<close> of the owner name of \<open>r\<close>
  returns a \<open>ZoneData\<close> that holds \<open>r\<close>: in the signature list under the covered type of
  \<open>r\<close> when \<open>r\<close> is an RRSIG, and in the plain list under the type of \<open>r\<close> otherwise.
\<close>

theorem Insert_then_Find:
  assumes "Insert ul z r = Inr (z', None)"
  shows "\<exists>zd. Find ul z' (Name (Header r)) = Some zd \<and>
     (if Rrtype (Header r) = TypeRRSIG
      then (case assertRRSIG r of
              Inl p \<Rightarrow> False
            | Inr c \<Rightarrow> r \<in> set (slice (Signatures zd) c))
      else r \<in> set (slice (RR zd) (Rrtype (Header r))))"
proof -
  from Insert_nil_Find [OF assms] obtain zd where
    f: "fileRR (Origin z) r (target ul z r) = Inr zd" and
    fd: "Find ul z' (Name (Header r)) = Some zd"
    by blast
  from f have "if Rrtype (Header r) = TypeRRSIG
      then (case assertRRSIG r of
              Inl p \<Rightarrow> False
            | Inr c \<Rightarrow> r \<in> set (slice (Signatures zd) c))
      else r \<in> set (slice (RR zd) (Rrtype (Header r)))"
    by (auto simp: fileRR_def Let_def slice_upd split: if_splits sum.splits)
  with fd show ?thesis by blast
qed

theorem Insert_then_Find_witness:
  "Insert keepBytes exampleZone rA = Inr (zoneA, None) \<and>
   Insert keepBytes exampleZone rSig = Inr (zoneSig, None) \<and>
   (\<exists>zd. Find keepBytes zoneA ''a.example.'' = Some zd \<and> rA \<in> set (slice (RR zd) TypeA)) \<and>
   (\<exists>zd. Find keepBytes zoneSig ''a.example.'' = Some zd \<and> rSig \<in> set (slice (Signatures zd) TypeA))"
  using Insert_then_Find [OF Insert_rA] Insert_then_Find [OF Insert_rSig] Insert_rA Insert_rSig
  by (simp add: rA_def rSig_def Header_def TypeA_def TypeRRSIG_def)

text \<open>
  What \<open>Insert\<close> does with an in-zone NS record: it returns \<open>nil\<close> and appends the record
  to the plain list under the NS type; the flag \<open>NonAuth\<close> of the name is true afterwards
  when the owner name and the origin differ as byte strings, and is left as it was (false
  for a name without entry) when they are the same byte string.
\<close>

lemma Insert_NS_bytewise:
  assumes "IsSubDomain ul (Origin z) (Name (Header r))" and "Rrtype (Header r) = TypeNS"
  shows "\<exists>z' zd. Insert ul z r = Inr (z', None) \<and> Find ul z' (Name (Header r)) = Some zd \<and>
     slice (RR zd) TypeNS =
       (case Find ul z (Name (Header r)) of
          None \<Rightarrow> []
        | Some zd0 \<Rightarrow> slice (RR zd0) TypeNS) @ [r] \<and>
     NonAuth zd =
       (if Name (Header r) = Origin z
        then (case Find ul z (Name (Header r)) of None \<Rightarrow> False | Some zd0 \<Rightarrow> NonAuth zd0)
        else True)"
proof -
  have ne: "TypeNS \<noteq> TypeRRSIG"
    by (simp add: TypeNS_def TypeRRSIG_def)
  define zd where "zd =
    (let zd1 = (if Name (Header r) \<noteq> Origin z then (target ul z r)\<lparr>NonAuth := True\<rparr>
                else target ul z r)
     in zd1\<lparr>RR := (RR zd1)(TypeNS \<mapsto> slice (RR zd1) TypeNS @ [r])\<rparr>)"
  have f: "fileRR (Origin z) r (target ul z r) = Inr zd"
    using assms(2) ne by (simp add: fileRR_def zd_def Let_def)
  from Insert_in_zone [OF assms(1) f] obtain z' where
    "Insert ul z r = Inr (z', None)" "Find ul z' (Name (Header r)) = Some zd"
    by blast
  moreover have "slice (RR zd) TypeNS =
       (case Find ul z (Name (Header r)) of
          None \<Rightarrow> []
        | Some zd0 \<Rightarrow> slice (RR zd0) TypeNS) @ [r]"
    by (simp add: zd_def Let_def slice_upd target_def Find_def newZoneData_def slice_def
        split: option.splits)
  moreover have "NonAuth zd =
       (if Name (Header r) = Origin z
        then (case Find ul z (Name (Header r)) of None \<Rightarrow> False | Some zd0 \<Rightarrow> NonAuth zd0)
        else True)"
    by (simp add: zd_def Let_def target_def Find_def newZoneData_def split: option.splits)
  ultimately show ?thesis by blast
qed

text \<open>
  Claim C7. An NS record whose owner name is the origin is to leave the flag \<open>NonAuth\<close> of
  the name false. \<open>Insert\<close> compares the owner name with the origin byte by byte, while
  it takes the name as in zone and files it under the key of the origin without regard
  to case. In the new zone \<open>example.\<close>, the NS record \<open>rNSupper\<close> at \<open>EXAMPLE.\<close>, which
  is the origin in another case, sets the flag of the origin's \<open>ZoneData\<close>; a later NS
  record at \<open>example.\<close> itself leaves it set.
\<close>

theorem Insert_NS_origin_other_case:
  "sameName ul (Name (Header rNSupper)) (Origin exampleZone) \<and>
   (case Insert ul exampleZone rNSupper of
      Inl p \<Rightarrow> False
    | Inr (z, e) \<Rightarrow> e = None \<and>
        (case Find ul z (Origin exampleZone) of
           None \<Rightarrow> False
         | Some zd \<Rightarrow> NonAuth zd \<and> slice (RR zd) TypeNS = [rNSupper])) \<and>
   (case run ul exampleZone [CallInsert rNSupper, CallInsert rNSapex] of
      Inl p \<Rightarrow> False
    | Inr z \<Rightarrow>
        (case Find ul z (Origin exampleZone) of
           None \<Rightarrow> False
         | Some zd \<Rightarrow> NonAuth zd \<and> slice (RR zd) TypeNS = [rNSupper, rNSapex]))"
  by code_simp

section \<open>Properties of Remove\<close>

text \<open>
  What the loop does when \<open>r\<close> is stored at most once: a list without \<open>r\<close> is left as it
  is, and a single \<open>r\<close> is taken out with the order of the other elements kept.
\<close>

lemma removeLoop_no_match:
  "(\<And>j. i \<le> j \<Longrightarrow> j < n \<Longrightarrow> arr ! j \<noteq> r) \<Longrightarrow>
   removeLoop r i n arr len rem = Inr (take len arr, rem)"
proof (induction "n - i" arbitrary: i)
  case 0
  then show ?case
    by (simp add: removeLoop.simps)
next
  case (Suc d)
  then have "i < n" "arr ! i \<noteq> r"
    by auto
  moreover have "removeLoop r (i + 1) n arr len rem = Inr (take len arr, rem)"
    using Suc by auto
  ultimately show ?case
    by (subst removeLoop.simps) auto
qed

lemma removeLoop_skip:
  "i \<le> k \<Longrightarrow> k \<le> n \<Longrightarrow> (\<And>j. i \<le> j \<Longrightarrow> j < k \<Longrightarrow> arr ! j \<noteq> r) \<Longrightarrow>
   removeLoop r i n arr len rem = removeLoop r k n arr len rem"
proof (induction "k - i" arbitrary: i)
  case 0
  then show ?case by simp
next
  case (Suc d)
  then have "i < n" "arr ! i \<noteq> r"
    by auto
  moreover have "removeLoop r (i + 1) n arr len rem = removeLoop r k n arr len rem"
    using Suc by auto
  ultimately show ?case
    by (subst removeLoop.simps) auto
qed

lemma removeFrom_absent: "r \<notin> set xs \<Longrightarrow> removeFrom r xs = Inr (xs, False)"
  unfolding removeFrom_def
  by (subst removeLoop_no_match) (auto simp: in_set_conv_nth)

lemma removeFrom_once:
  assumes "r \<notin> set ys" and "r \<notin> set zs"
  shows "removeFrom r (ys @ r # zs) = Inr (ys @ zs, True)"
proof -
  let ?xs = "ys @ r # zs"
  let ?n = "length ?xs"
  let ?k = "length ys"
  let ?arr = "ys @ zs @ [last (r # zs)]"
  have skip: "removeLoop r 0 ?n ?xs ?n False = removeLoop r ?k ?n ?xs ?n False"
    using assms(1) by (intro removeLoop_skip) (auto simp: nth_append in_set_conv_nth)
  have dl: "drop (length zs) (r # zs) = [last (r # zs)]"
    by (cases zs rule: rev_cases) auto
  have step: "removeLoop r ?k ?n ?xs ?n False = removeLoop r (?k + 1) ?n ?arr (?n - 1) True"
    by (subst removeLoop.simps) (simp add: dl del: last.simps)
  have rest: "?arr ! j \<noteq> r" if "?k + 1 \<le> j" "j < ?n" for j
  proof -
    from that have "zs \<noteq> []"
      by auto
    then have "set (zs @ [last (r # zs)]) \<subseteq> set zs"
      by auto
    moreover from that have "?arr ! j = (zs @ [last (r # zs)]) ! (j - ?k)"
      "j - ?k < length (zs @ [last (r # zs)])"
      by (auto simp: nth_append)
    ultimately have "?arr ! j \<in> set zs"
      by (metis nth_mem subsetD)
    with assms(2) show ?thesis by auto
  qed
  have "removeLoop r (?k + 1) ?n ?arr (?n - 1) True = Inr (take (?n - 1) ?arr, True)"
    by (rule removeLoop_no_match) (rule rest)
  moreover have "take (?n - 1) ?arr = ys @ zs"
    by simp
  ultimately show ?thesis
    unfolding removeFrom_def using skip step by simp
qed

lemma Remove_absent:
  "Find ul z (Name (Header r)) = None \<Longrightarrow> Remove ul z r = Inr (z, None)"
  by (simp add: Remove_def Find_def)

lemma Remove_stored_once:
  assumes "Radix z (toRadixName ul (Name (Header r))) = Some zd"
    and "Rrtype (Header r) \<noteq> TypeRRSIG"
    and "slice (RR zd) (Rrtype (Header r)) = ys @ r # zs"
    and "r \<notin> set ys" and "r \<notin> set zs"
  shows "\<exists>z' zd'. Remove ul z r = Inr (z', None) \<and> Find ul z' (Name (Header r)) = Some zd' \<and>
           slice (RR zd') (Rrtype (Header r)) = ys @ zs"
  using assms removeFrom_once [OF assms(4,5)]
  by (simp add: Remove_def Find_def Let_def slice_def)

text \<open>
  Claim C3. \<open>Remove\<close> is meant to return \<open>nil\<close> always and to take every stored copy of
  \<open>r\<close> out of the list it belongs to. Three runs on the new zone \<open>example.\<close> show what the
  loop does instead. With \<open>rA\<close> inserted twice, \<open>Remove\<close> of \<open>rA\<close> does not return: the
  second match slices past the shortened list. With \<open>rA\<close>, \<open>rA\<close>, \<open>rB\<close> inserted, \<open>Remove\<close> of
  \<open>rA\<close> returns and one \<open>rA\<close> is still stored: the element moved into the place of the
  removed one is skipped. With the RRSIG \<open>rSig\<close> inserted, \<open>Remove\<close> of \<open>rSig\<close> returns and
  \<open>rSig\<close> is still in the signature list: the loop runs over the plain list.
\<close>

theorem Remove_duplicates_and_signatures:
  "(case run ul exampleZone [CallInsert rA, CallInsert rA, CallRemove rA] of
      Inl p \<Rightarrow> p = SliceBounds
    | Inr z \<Rightarrow> False) \<and>
   (case run ul exampleZone [CallInsert rA, CallInsert rA, CallInsert rB, CallRemove rA] of
      Inl p \<Rightarrow> False
    | Inr z \<Rightarrow>
        (case Find ul z ''a.example.'' of
           None \<Rightarrow> False
         | Some zd \<Rightarrow> slice (RR zd) TypeA = [rA, rB])) \<and>
   (case run ul exampleZone [CallInsert rSig, CallRemove rSig] of
      Inl p \<Rightarrow> False
    | Inr z \<Rightarrow>
        (case Find ul z ''a.example.'' of
           None \<Rightarrow> False
         | Some zd \<Rightarrow> slice (Signatures zd) TypeA = [rSig]))"
  by code_simp

section \<open>The wildcard counter\<close>

lemma wildcardNames_iff:
  "n \<in> wildcardNames z \<longleftrightarrow>
     isWildcardName n \<and> (\<exists>k zd. Radix z k = Some zd \<and> Name_zd zd = n)"
  by (auto simp: wildcardNames_def ran_def)

lemma finite_wildcardNames: "zoneInv ul z \<Longrightarrow> finite (wildcardNames z)"
proof -
  assume "zoneInv ul z"
  then have "finite (ran (Radix z))"
    by (simp add: zoneInv_def finite_ran)
  then have "finite (Name_zd ` ran (Radix z))"
    by simp
  moreover have "wildcardNames z \<subseteq> Name_zd ` ran (Radix z)"
    by (auto simp: wildcardNames_def)
  ultimately show ?thesis
    by (rule rev_finite_subset)
qed

lemma fileRR_Name: "fileRR origin r zd = Inr zd' \<Longrightarrow> Name_zd zd' = Name_zd zd"
  by (auto simp: fileRR_def Let_def split: if_splits sum.splits)

lemma names_same:
  assumes "Radix z' = (Radix z)(k \<mapsto> zd)" and "Radix z k = Some zd0"
    and "Name_zd zd = Name_zd zd0"
  shows "wildcardNames z' = wildcardNames z"
proof (rule set_eqI)
  fix n
  show "n \<in> wildcardNames z' \<longleftrightarrow> n \<in> wildcardNames z"
    unfolding wildcardNames_iff using assms
    by (auto split: if_splits) (metis option.inject)+
qed

lemma names_new:
  assumes "Radix z' = (Radix z)(k \<mapsto> zd)" and "Radix z k = None"
  shows "wildcardNames z' =
     (if isWildcardName (Name_zd zd) then insert (Name_zd zd) (wildcardNames z)
      else wildcardNames z)"
proof -
  have L: "Radix z' k' = Some zd' \<longleftrightarrow> (k' = k \<and> zd' = zd) \<or> Radix z k' = Some zd'"
    for k' zd'
    using assms by auto
  have "n \<in> wildcardNames z' \<longleftrightarrow>
        (isWildcardName (Name_zd zd) \<and> n = Name_zd zd) \<or> n \<in> wildcardNames z" for n
    unfolding wildcardNames_iff L by blast
  then show ?thesis by auto
qed

lemma name_not_present:
  assumes "zoneInv ul z" and "Radix z (toRadixName ul n) = None"
  shows "n \<notin> wildcardNames z"
  using assms unfolding wildcardNames_iff zoneInv_def by fastforce

text \<open>
  \<open>Insert\<close> keeps the difference between the number of wildcard names and the counter:
  a new key with a wildcard name adds one to both.
\<close>

lemma Insert_Wildcard_step:
  assumes ins: "Insert ul z r = Inr (z', e)" and inv: "zoneInv ul z"
  shows "zoneInv ul z' \<and> Wildcard z \<le> Wildcard z' \<and>
         int (card (wildcardNames z')) - Wildcard z' =
         int (card (wildcardNames z)) - Wildcard z"
proof (cases "IsSubDomain ul (Origin z) (Name (Header r))")
  case False
  with ins have "z' = z"
    by (simp add: Insert_def)
  with inv show ?thesis by simp
next
  case True
  let ?n = "Name (Header r)"
  let ?k = "toRadixName ul ?n"
  show ?thesis
  proof (cases "Radix z ?k")
    case None
    from ins True None obtain zd where
      f: "fileRR (Origin z) r (newZoneData ?n) = Inr zd" and
      z': "z' = (if isWildcardName ?n then z\<lparr>Wildcard := Wildcard z + 1\<rparr> else z)
                  \<lparr>Radix := (Radix z)(?k \<mapsto> zd)\<rparr>"
      by (auto simp: Insert_def Let_def split: sum.splits if_splits)
    from fileRR_Name [OF f] have nm: "Name_zd zd = ?n"
      by (simp add: newZoneData_def)
    from z' have R: "Radix z' = (Radix z)(?k \<mapsto> zd)"
      by (simp split: if_splits)
    from z' have W: "Wildcard z' = Wildcard z + (if isWildcardName ?n then 1 else 0)"
      by simp
    have "zoneInv ul z'"
      using inv nm unfolding zoneInv_def R by auto
    moreover have "?n \<notin> wildcardNames z"
      by (rule name_not_present [OF inv None])
    then have "int (card (wildcardNames z')) =
        int (card (wildcardNames z)) + (if isWildcardName ?n then 1 else 0)"
      using names_new [OF R None] finite_wildcardNames [OF inv] nm by simp
    ultimately show ?thesis
      using W by simp
  next
    case (Some zd0)
    from ins True Some obtain zd where
      f: "fileRR (Origin z) r zd0 = Inr zd" and
      z': "z' = z\<lparr>Radix := (Radix z)(?k \<mapsto> zd)\<rparr>"
      by (auto simp: Insert_def Let_def split: sum.splits)
    from fileRR_Name [OF f] have nm: "Name_zd zd = Name_zd zd0" .
    from z' have R: "Radix z' = (Radix z)(?k \<mapsto> zd)"
      by simp
    from z' have W: "Wildcard z' = Wildcard z"
      by simp
    have "toRadixName ul (Name_zd zd0) = ?k"
      using inv Some by (simp add: zoneInv_def)
    then have "zoneInv ul z'"
      using inv nm unfolding zoneInv_def R by auto
    then show ?thesis
      using names_same [OF R Some nm] W by simp
  qed
qed

text \<open>What a returning \<open>Remove\<close> does to a zone that has an entry for the name.\<close>

lemma Remove_shape:
  assumes "Remove ul z r = Inr (z', e)"
    and "Radix z (toRadixName ul (Name (Header r))) = Some zd0"
  shows "\<exists>t xs remove.
     z' = (if remove
           then z\<lparr>Radix := (Radix z)(toRadixName ul (Name (Header r)) \<mapsto>
                              zd0\<lparr>RR := (RR zd0)(t \<mapsto> xs)\<rparr>)\<rparr>
           else z)
          \<lparr>Wildcard := (if remove \<and> isWildcardName (Name (Header r))
                        then max 0 (Wildcard z - 1) else Wildcard z)\<rparr>"
proof -
  from assms obtain t xs remove where
    "removeFrom r (slice (RR zd0) t) = Inr (xs, remove)"
    "z' = (let z1 = (if remove
                     then z\<lparr>Radix := (Radix z)(toRadixName ul (Name (Header r)) \<mapsto>
                                        zd0\<lparr>RR := (RR zd0)(t \<mapsto> xs)\<rparr>)\<rparr>
                     else z)
           in if remove \<and> isWildcardName (Name (Header r))
              then z1\<lparr>Wildcard := (if Wildcard z - 1 < 0 then 0 else Wildcard z - 1)\<rparr>
              else z1)"
    unfolding Remove_def Let_def
    by (simp split: sum.splits prod.splits if_splits)
  then have "z' = (if remove
           then z\<lparr>Radix := (Radix z)(toRadixName ul (Name (Header r)) \<mapsto>
                              zd0\<lparr>RR := (RR zd0)(t \<mapsto> xs)\<rparr>)\<rparr>
           else z)
          \<lparr>Wildcard := (if remove \<and> isWildcardName (Name (Header r))
                        then max 0 (Wildcard z - 1) else Wildcard z)\<rparr>"
    by (simp add: Let_def max_def)
  then show ?thesis by blast
qed

lemma Remove_Wildcard_step:
  assumes rem: "Remove ul z r = Inr (z', e)" and inv: "zoneInv ul z"
  shows "zoneInv ul z' \<and> wildcardNames z' = wildcardNames z \<and>
         (Wildcard z' = Wildcard z \<or>
          isWildcardName (Name (Header r)) \<and> Wildcard z' = max 0 (Wildcard z - 1))"
proof (cases "Radix z (toRadixName ul (Name (Header r)))")
  case None
  with rem have "z' = z"
    by (simp add: Remove_def)
  with inv show ?thesis by simp
next
  case (Some zd0)
  let ?k = "toRadixName ul (Name (Header r))"
  from Remove_shape [OF rem Some] obtain t xs remove where
    z': "z' = (if remove
           then z\<lparr>Radix := (Radix z)(?k \<mapsto> zd0\<lparr>RR := (RR zd0)(t \<mapsto> xs)\<rparr>)\<rparr>
           else z)
          \<lparr>Wildcard := (if remove \<and> isWildcardName (Name (Header r))
                        then max 0 (Wildcard z - 1) else Wildcard z)\<rparr>"
    by blast
  define zd where "zd = zd0\<lparr>RR := (RR zd0)(t \<mapsto> xs)\<rparr>"
  have nm: "Name_zd zd = Name_zd zd0"
    by (simp add: zd_def)
  have W: "Wildcard z' = Wildcard z \<or>
          isWildcardName (Name (Header r)) \<and> Wildcard z' = max 0 (Wildcard z - 1)"
    using z' by simp
  show ?thesis
  proof (cases remove)
    case False
    with z' have "Radix z' = Radix z"
      by simp
    then show ?thesis
      using inv W by (simp add: zoneInv_def wildcardNames_def)
  next
    case True
    with z' have R': "Radix z' = (Radix z)(?k \<mapsto> zd)"
      by (simp add: zd_def)
    have "toRadixName ul (Name_zd zd0) = ?k"
      using inv Some by (simp add: zoneInv_def)
    then have "zoneInv ul z'"
      using inv nm unfolding zoneInv_def R' by auto
    then show ?thesis
      using names_same [OF R' Some nm] W by simp
  qed
qed

lemma run_Wildcard_bounds:
  assumes "run ul z cs = Inr z'" and "zoneInv ul z"
    and "0 \<le> Wildcard z" and "Wildcard z \<le> int (card (wildcardNames z))"
  shows "zoneInv ul z' \<and> 0 \<le> Wildcard z' \<and> Wildcard z' \<le> int (card (wildcardNames z'))"
  using assms
proof (induction ul z cs rule: run.induct)
  case (1 ul z)
  then show ?case by simp
next
  case (2 ul z r cs)
  from "2.prems"(1) obtain z1 e where
    i: "Insert ul z r = Inr (z1, e)" and r: "run ul z1 cs = Inr z'"
    by (auto split: sum.splits)
  from Insert_Wildcard_step [OF i "2.prems"(2)] "2.prems"(3,4)
  have "zoneInv ul z1" "0 \<le> Wildcard z1" "Wildcard z1 \<le> int (card (wildcardNames z1))"
    by auto
  with "2.IH" i r show ?case by simp
next
  case (3 ul z r cs)
  from "3.prems"(1) obtain z1 e where
    i: "Remove ul z r = Inr (z1, e)" and r: "run ul z1 cs = Inr z'"
    by (auto split: sum.splits)
  from Remove_Wildcard_step [OF i "3.prems"(2)] "3.prems"(3,4)
  have "zoneInv ul z1" "0 \<le> Wildcard z1" "Wildcard z1 \<le> int (card (wildcardNames z1))"
    by auto
  with "3.IH" i r show ?case by simp
qed

lemma run_Wildcard_exact:
  assumes "run ul z cs = Inr z'" and "zoneInv ul z"
    and "Wildcard z = int (card (wildcardNames z))"
    and "\<forall>r. CallRemove r \<in> set cs \<longrightarrow> \<not> isWildcardName (Name (Header r))"
  shows "Wildcard z' = int (card (wildcardNames z'))"
  using assms
proof (induction ul z cs rule: run.induct)
  case (1 ul z)
  then show ?case by simp
next
  case (2 ul z r cs)
  from "2.prems"(1) obtain z1 e where
    i: "Insert ul z r = Inr (z1, e)" and r: "run ul z1 cs = Inr z'"
    by (auto split: sum.splits)
  from Insert_Wildcard_step [OF i "2.prems"(2)] "2.prems"(3)
  have "zoneInv ul z1" "Wildcard z1 = int (card (wildcardNames z1))"
    by auto
  with "2.IH" i r "2.prems"(4) show ?case by simp
next
  case (3 ul z r cs)
  from "3.prems"(1) obtain z1 e where
    i: "Remove ul z r = Inr (z1, e)" and r: "run ul z1 cs = Inr z'"
    by (auto split: sum.splits)
  from "3.prems"(4) have nw: "\<not> isWildcardName (Name (Header r))"
    by simp
  from Remove_Wildcard_step [OF i "3.prems"(2)] "3.prems"(3) nw
  have "zoneInv ul z1" "Wildcard z1 = int (card (wildcardNames z1))"
    by auto
  with "3.IH" i r "3.prems"(4) show ?case by simp
qed

lemma NewZone_fresh:
  assumes "NewZone IsDomainName origin = Some z"
  shows "zoneInv ul z \<and> Wildcard z = 0 \<and> wildcardNames z = {}"
  using assms
  by (auto simp: NewZone_def Let_def zoneInv_def wildcardNames_def split: if_splits)

lemma exampleZone_new: "NewZone (\<lambda>s. True) ''example.'' = Some exampleZone"
  by (simp add: NewZone_def exampleZone_def Fqdn_def IsFqdn_def)

lemma present_wildcard:
  assumes "Find ul z n = Some zd" and "Name_zd zd = n" and "isWildcardName n" and "zoneInv ul z"
  shows "0 < card (wildcardNames z)"
proof -
  from assms(1-3) have "n \<in> wildcardNames z"
    unfolding wildcardNames_iff Find_def by blast
  with finite_wildcardNames [OF assms(4)] show ?thesis
    by (auto simp: card_gt_0_iff)
qed

text \<open>
  Claim C4, as the claim states it, fails: in the new zone \<open>example.\<close>, after \<open>Insert\<close> of
  two records \<open>rW1\<close> and \<open>rW2\<close> at \<open>*.example.\<close> and \<open>Remove\<close> of \<open>rW1\<close>, the counter is 0
  while \<open>*.example.\<close> is still present and still holds \<open>rW2\<close>.
\<close>

theorem Wildcard_counter_counterexample:
  "case run keepBytes exampleZone [CallInsert rW1, CallInsert rW2, CallRemove rW1] of
     Inl p \<Rightarrow> False
   | Inr z \<Rightarrow> Wildcard z = 0 \<and> Wildcard z \<noteq> int (card (wildcardNames z)) \<and>
       (case Find keepBytes z ''*.example.'' of
          None \<Rightarrow> False
        | Some zd \<Rightarrow> Name_zd zd = ''*.example.'' \<and> slice (RR zd) TypeA = [rW2])"
proof -
  let ?cs = "[CallInsert rW1, CallInsert rW2, CallRemove rW1]"
  have "case run keepBytes exampleZone ?cs of
     Inl p \<Rightarrow> False
   | Inr z \<Rightarrow> Wildcard z = 0 \<and>
       (case Find keepBytes z ''*.example.'' of
          None \<Rightarrow> False
        | Some zd \<Rightarrow> Name_zd zd = ''*.example.'' \<and> slice (RR zd) TypeA = [rW2])"
    by code_simp
  then obtain z zd where r: "run keepBytes exampleZone ?cs = Inr z" and w: "Wildcard z = 0"
    and f: "Find keepBytes z ''*.example.'' = Some zd" and n: "Name_zd zd = ''*.example.''"
    and l: "slice (RR zd) TypeA = [rW2]"
    by (auto split: sum.splits option.splits)
  from NewZone_fresh [OF exampleZone_new] have i0: "zoneInv keepBytes exampleZone"
    by simp
  from run_Wildcard_bounds [OF r i0] NewZone_fresh [OF exampleZone_new]
  have "zoneInv keepBytes z"
    by simp
  from present_wildcard [OF f n _ this] have "0 < card (wildcardNames z)"
    by simp
  with r w f n l show ?thesis by simp
qed

text \<open>
  Claim C4, amended. After every finite sequence of \<open>Insert\<close> and \<open>Remove\<close> calls that
  return, starting from a new zone, the counter is never negative and never above the
  number of distinct owner names in the zone that begin with \<open>*.\<close>; it equals that number
  when no \<open>Remove\<close> call of the sequence names a wildcard owner.
\<close>

theorem Wildcard_counter_bounds:
  assumes "NewZone IsDomainName origin = Some z0" and "run ul z0 cs = Inr z"
  shows "0 \<le> Wildcard z \<and> Wildcard z \<le> int (card (wildcardNames z)) \<and>
         ((\<forall>r. CallRemove r \<in> set cs \<longrightarrow> \<not> isWildcardName (Name (Header r))) \<longrightarrow>
            Wildcard z = int (card (wildcardNames z)))"
proof -
  from NewZone_fresh [OF assms(1)] have
    f: "zoneInv ul z0" "Wildcard z0 = 0" "wildcardNames z0 = {}"
    by simp_all
  from run_Wildcard_bounds [OF assms(2) f(1)] f(2,3)
  have "0 \<le> Wildcard z \<and> Wildcard z \<le> int (card (wildcardNames z))"
    by simp
  moreover from run_Wildcard_exact [OF assms(2) f(1)] f(2,3)
  have "(\<forall>r. CallRemove r \<in> set cs \<longrightarrow> \<not> isWildcardName (Name (Header r))) \<longrightarrow>
            Wildcard z = int (card (wildcardNames z))"
    by simp
  ultimately show ?thesis by blast
qed

text \<open>
  Three insertions at the two wildcard names \<open>*.example.\<close> and \<open>*.b.example.\<close> and a
  \<open>Remove\<close> at \<open>a.example.\<close> leave the counter at 2, the number of wildcard names.
\<close>

theorem Wildcard_counter_bounds_witness:
  "NewZone (\<lambda>s. True) ''example.'' = Some exampleZone \<and>
   \<not> isWildcardName (Name (Header rA)) \<and>
   (case run keepBytes exampleZone [CallInsert rW1, CallInsert rW2, CallInsert rW3, CallRemove rA] of
      Inl p \<Rightarrow> False
    | Inr z \<Rightarrow> Wildcard z = 2 \<and> 0 \<le> Wildcard z \<and>
        Wildcard z \<le> int (card (wildcardNames z)) \<and>
        Wildcard z = int (card (wildcardNames z)))"
proof -
  let ?cs = "[CallInsert rW1, CallInsert rW2, CallInsert rW3, CallRemove rA]"
  have "case run keepBytes exampleZone ?cs of Inl p \<Rightarrow> False | Inr z \<Rightarrow> Wildcard z = 2"
    by code_simp
  then obtain z where r: "run keepBytes exampleZone ?cs = Inr z" and w: "Wildcard z = 2"
    by (auto split: sum.splits)
  have nr: "\<forall>r. CallRemove r \<in> set ?cs \<longrightarrow> \<not> isWildcardName (Name (Header r))"
    by (simp add: rA_def Header_def)
  from Wildcard_counter_bounds [OF exampleZone_new r] nr
  have "0 \<le> Wildcard z \<and> Wildcard z \<le> int (card (wildcardNames z)) \<and>
        Wildcard z = int (card (wildcardNames z))"
    by blast
  with r w exampleZone_new show ?thesis
    by (simp add: rA_def Header_def)
qed

section \<open>Properties of Sign\<close>

lemma Sign_keeps_given_config: "sign_config (Sign z keys (Some c)) = Some c"
  by (simp add: Sign_def)

text \<open>
  Claim C9. \<open>Sign\<close> called with no config has the default policy as its config when it
  returns, and the values of the default policy are 4 weeks, 3 days, 12 hours and 300
  seconds, in nanoseconds.
\<close>

theorem Sign_default_config:
  "sign_config (Sign z keys None) = Some DefaultSignatureConfig \<and>
   sint (Validity DefaultSignatureConfig) = 4 * 7 * 24 * 60 * 60 * 1000000000 \<and>
   sint (Refresh DefaultSignatureConfig) = 3 * 24 * 60 * 60 * 1000000000 \<and>
   sint (Jitter DefaultSignatureConfig) = 12 * 60 * 60 * 1000000000 \<and>
   sint (InceptionOffset DefaultSignatureConfig) = 300 * 1000000000"
  by (simp add: Sign_def DefaultSignatureConfig_def newSignatureConfig_def
      Hour_def Second_def)

text \<open>
  Claim C10. For every zone, key list and config, \<open>Sign\<close> returns \<open>nil\<close> and the zone is
  the one it was given: no record is added, replaced or removed.
\<close>

theorem Sign_returns_nil_zone_unchanged:
  "sign_zone (Sign z keys config) = z \<and> sign_err (Sign z keys config) = None"
  by (simp add: Sign_def Let_def)

end
